theory Spec2Isabelle
  imports Main "HOL-Library.Word"
begin

section \<open>PushButton: the object and its environment\<close>

text \<open>
  The embedding follows \<^verbatim>\<open>src/PushButton.cpp\<close>. The class declaration (PushButton.h) is
  not part of the sources, so the types of the member variables are fixed here:
  the two timestamps hold readings of \<^verbatim>\<open>millis()\<close>, the wrapping 32-bit millisecond
  counter of the platform, and the three delays are kept as the value they contribute to
  the unsigned comparison with \<^verbatim>\<open>millis() - _time\<close> (the usual arithmetic conversions turn
  the delay into an \<^verbatim>\<open>unsigned long\<close>).
\<close>

type_synonym millis_t = "32 word"
type_synonym byte = "8 word"

text \<open>
  Modelled from the spec: the member declarations of class PushButton (the header is
  missing). Names are the source's, without the leading underscore.
\<close>

record PushButton =
  pin :: int
  pinMode :: byte
  invert :: bool
  state :: bool
  pState :: bool
  now :: bool
  prev :: bool
  longState :: bool
  isJustPressed :: bool
  isJustReleased :: bool
  longClick :: bool
  doubleClick :: bool
  time :: millis_t
  timeDouble :: millis_t
  debounceDelay :: millis_t
  longDelay :: millis_t
  doubleDelay :: millis_t

text \<open>
  \<^verbatim>\<open>update()\<close> calls \<^verbatim>\<open>millis()\<close> at up to three of five places, and the counter may tick
  between two of them. Each place gets its own reading: line 115 (\<open>atFlip\<close>), line 120
  (\<open>atDebounce\<close>), line 132 (\<open>atDouble\<close>), line 137 (\<open>atStamp\<close>), line 143 (\<open>atLong\<close>).
\<close>

record millis_reads =
  atFlip :: millis_t
  atDebounce :: millis_t
  atDouble :: millis_t
  atStamp :: millis_t
  atLong :: millis_t

text \<open>
  The constructor sets the three delays and \<open>_time\<close>; every other member keeps whatever the
  object's memory held, which is the argument \<open>s\<close>.
\<close>

definition PushButton_init :: "millis_t \<Rightarrow> PushButton \<Rightarrow> PushButton" where
  "PushButton_init t s =
     s\<lparr>debounceDelay := 5, longDelay := 1000, doubleDelay := 300, time := t\<rparr>"

text \<open>
  \<^verbatim>\<open>begin(pin, mode)\<close>. The constants \<^verbatim>\<open>INPUT_PULLUP\<close> (Arduino.h) and \<^verbatim>\<open>PULLUP\<close> (PushButton.h)
  are not in the sources and are parameters. The call of \<^verbatim>\<open>pinMode\<close> acts on the pin
  hardware only and leaves the object alone. Lines 58 to 87 assign \<open>_pin\<close>, \<open>_pinMode\<close>,
  \<open>_invert\<close>, the four levels, \<open>_longState\<close>, \<open>_longClick\<close> and the two guards, and nothing
  else.
\<close>

definition PushButton_begin ::
  "byte \<Rightarrow> byte \<Rightarrow> int \<Rightarrow> byte \<Rightarrow> PushButton \<Rightarrow> PushButton" where
  "PushButton_begin INPUT_PULLUP PULLUP p mode s =
     (let s1 = s\<lparr>pin := p, pinMode := mode\<rparr>;
          s2 = (if pinMode s1 = INPUT_PULLUP \<or> pinMode s1 = PULLUP
                then s1\<lparr>invert := True, state := True, pState := True,
                        now := True, prev := True\<rparr>
                else s1\<lparr>invert := False, state := False, pState := False,
                        now := False, prev := False\<rparr>)
      in s2\<lparr>longState := False, longClick := False,
             isJustPressed := True, isJustReleased := True\<rparr>)"

text \<open>The setters take a C \<^verbatim>\<open>int\<close>; the stored value is its conversion to the counter type.\<close>

definition setDebounceDelay :: "int \<Rightarrow> PushButton \<Rightarrow> PushButton" where
  "setDebounceDelay delay s = s\<lparr>debounceDelay := word_of_int delay\<rparr>"

definition setLongDelay :: "int \<Rightarrow> PushButton \<Rightarrow> PushButton" where
  "setLongDelay delay s = s\<lparr>longDelay := word_of_int delay\<rparr>"

definition setDoubleDelay :: "int \<Rightarrow> PushButton \<Rightarrow> PushButton" where
  "setDoubleDelay delay s = s\<lparr>doubleDelay := word_of_int delay\<rparr>"

subsection \<open>Level accessors\<close>

text \<open>
  \<^verbatim>\<open>_state ^ _invert\<close> on two \<^verbatim>\<open>bool\<close>s is their exclusive or; \<^verbatim>\<open>!_state ^ _invert\<close> parses as
  \<^verbatim>\<open>(!_state) ^ _invert\<close>.
\<close>

definition isPressed :: "PushButton \<Rightarrow> bool" where
  "isPressed s = (state s \<noteq> invert s)"

definition isReleased :: "PushButton \<Rightarrow> bool" where
  "isReleased s = ((\<not> state s) \<noteq> invert s)"

definition isLongPressed :: "PushButton \<Rightarrow> bool" where
  "isLongPressed s = ((state s \<noteq> invert s) \<and> longState s)"

definition isLongReleased :: "PushButton \<Rightarrow> bool" where
  "isLongReleased s = (((\<not> state s) \<noteq> invert s) \<and> longState s)"

subsection \<open>The state machine\<close>

text \<open>
  \<^verbatim>\<open>update()\<close>, lines 107 to 152. \<open>raw\<close> is what \<^verbatim>\<open>digitalRead(_pin)\<close> returns, as a \<^verbatim>\<open>bool\<close>.
  The result is the returned value and the object after the call.
\<close>

definition PushButton_update ::
  "bool \<Rightarrow> millis_reads \<Rightarrow> PushButton \<Rightarrow> bool \<times> PushButton" where
  "PushButton_update raw ms s =
     (let s1 = s\<lparr>prev := now s, now := raw\<rparr> in
      if now s1 \<noteq> prev s1 then (False, s1\<lparr>time := atFlip ms\<rparr>)
      else if state s1 \<noteq> now s1 \<and> atDebounce ms - time s1 > debounceDelay s1 then
        (let s2 = s1\<lparr>pState := state s1, state := now s1, longState := False,
                     isJustPressed := False, isJustReleased := False\<rparr>;
             s3 = (if isPressed s2 then s2\<lparr>longClick := False\<rparr> else s2);
             s4 = (if isReleased s3
                   then s3\<lparr>doubleClick := (atDouble ms - timeDouble s3 < doubleDelay s3),
                           timeDouble := atStamp ms\<rparr>
                   else s3)
         in (True, s4))
      else if \<not> longState s1 \<and> atLong ms - time s1 > longDelay s1 then
        (let s2 = s1\<lparr>longState := True\<rparr>;
             s3 = (if isPressed s2 then s2\<lparr>longClick := True\<rparr> else s2)
         in (True, s3))
      else (False, s1))"

subsection \<open>One-shot accessors\<close>

definition justPressed :: "PushButton \<Rightarrow> bool \<times> PushButton" where
  "justPressed s =
     (if isPressed s \<and> \<not> isJustPressed s then (True, s\<lparr>isJustPressed := True\<rparr>)
      else (False, s))"

definition justReleased :: "PushButton \<Rightarrow> bool \<times> PushButton" where
  "justReleased s =
     (if isReleased s \<and> \<not> isJustReleased s then (True, s\<lparr>isJustReleased := True\<rparr>)
      else (False, s))"

text \<open>\<open>t\<close> is the reading of \<^verbatim>\<open>millis()\<close> at line 202.\<close>

definition justClicked :: "millis_t \<Rightarrow> PushButton \<Rightarrow> bool \<times> PushButton" where
  "justClicked t s =
     (if t - timeDouble s < doubleDelay s \<or> (longClick s \<or> doubleClick s) then (False, s)
      else justReleased s)"

definition justLongClicked :: "PushButton \<Rightarrow> bool \<times> PushButton" where
  "justLongClicked s =
     (if \<not> longClick s then (False, s)
      else (case justReleased s of
              (True, s') \<Rightarrow> (True, s'\<lparr>longClick := False\<rparr>)
            | (False, s') \<Rightarrow> (False, s')))"

definition justDoubleClicked :: "PushButton \<Rightarrow> bool \<times> PushButton" where
  "justDoubleClicked s =
     (if \<not> doubleClick s then (False, s)
      else (case justReleased s of
              (True, s') \<Rightarrow> (True, s'\<lparr>doubleClick := False\<rparr>)
            | (False, s') \<Rightarrow> (False, s')))"

subsection \<open>Sequences of calls on one button\<close>

text \<open>
  What a sketch may call on a button once \<^verbatim>\<open>begin\<close> has run, with the readings of the
  environment each call consumes. \<open>exec\<close> gives the returned value and the object after the
  call; the three setters return nothing and the model gives \<open>False\<close> for them.
\<close>

datatype call =
    Update bool millis_reads
  | IsPressed | IsReleased | IsLongPressed | IsLongReleased
  | JustPressed | JustReleased
  | JustClicked millis_t | JustLongClicked | JustDoubleClicked
  | SetDebounceDelay int | SetLongDelay int | SetDoubleDelay int

fun exec :: "call \<Rightarrow> PushButton \<Rightarrow> bool \<times> PushButton" where
  "exec (Update raw ms) s = PushButton_update raw ms s"
| "exec IsPressed s = (isPressed s, s)"
| "exec IsReleased s = (isReleased s, s)"
| "exec IsLongPressed s = (isLongPressed s, s)"
| "exec IsLongReleased s = (isLongReleased s, s)"
| "exec JustPressed s = justPressed s"
| "exec JustReleased s = justReleased s"
| "exec (JustClicked t) s = justClicked t s"
| "exec JustLongClicked s = justLongClicked s"
| "exec JustDoubleClicked s = justDoubleClicked s"
| "exec (SetDebounceDelay d) s = (False, setDebounceDelay d s)"
| "exec (SetLongDelay d) s = (False, setLongDelay d s)"
| "exec (SetDoubleDelay d) s = (False, setDoubleDelay d s)"

fun run :: "call list \<Rightarrow> PushButton \<Rightarrow> PushButton" where
  "run [] s = s"
| "run (c # cs) s = run cs (snd (exec c s))"

text \<open>The values returned by the calls of a sequence, in order.\<close>

fun rets :: "call list \<Rightarrow> PushButton \<Rightarrow> bool list" where
  "rets [] s = []"
| "rets (c # cs) s = fst (exec c s) # rets cs (snd (exec c s))"

text \<open>
  A call commits when it assigns \<open>_state\<close> a new level. After \<^verbatim>\<open>begin\<close> the only assignment
  to \<open>_state\<close> is line 122, in the branch of \<^verbatim>\<open>update()\<close> guarded by \<^verbatim>\<open>_state != _now\<close>, so
  these are the accepted (debounced) transitions.
\<close>

definition commits :: "call \<Rightarrow> PushButton \<Rightarrow> bool" where
  "commits c s = (state (snd (exec c s)) \<noteq> state s)"

definition commits_pressed :: "call \<Rightarrow> PushButton \<Rightarrow> bool" where
  "commits_pressed c s = (commits c s \<and> isPressed (snd (exec c s)))"

definition commits_released :: "call \<Rightarrow> PushButton \<Rightarrow> bool" where
  "commits_released c s = (commits c s \<and> isReleased (snd (exec c s)))"

text \<open>\<open>quiet P cs s\<close>: running \<open>cs\<close> from \<open>s\<close>, no call satisfies \<open>P\<close> in the state it runs in.\<close>

fun quiet :: "(call \<Rightarrow> PushButton \<Rightarrow> bool) \<Rightarrow> call list \<Rightarrow> PushButton \<Rightarrow> bool" where
  "quiet P [] s = True"
| "quiet P (c # cs) s = (\<not> P c s \<and> quiet P cs (snd (exec c s)))"

text \<open>
  The calls that invoke \<^verbatim>\<open>justPressed()\<close>, the calls that can invoke \<^verbatim>\<open>justReleased()\<close>
  (itself and the three click accessors built on it, lines 204, 211 and 223; each of
  these returns true exactly when its inner \<^verbatim>\<open>justReleased()\<close> did), and the five event
  accessors together.
\<close>

fun is_justPressed :: "call \<Rightarrow> bool" where
  "is_justPressed JustPressed = True"
| "is_justPressed _ = False"

fun uses_justReleased :: "call \<Rightarrow> bool" where
  "uses_justReleased JustReleased = True"
| "uses_justReleased (JustClicked t) = True"
| "uses_justReleased JustLongClicked = True"
| "uses_justReleased JustDoubleClicked = True"
| "uses_justReleased _ = False"

definition is_event :: "call \<Rightarrow> bool" where
  "is_event c = (is_justPressed c \<or> uses_justReleased c)"

text \<open>How many of the selected calls of a sequence return true.\<close>

fun count_fires :: "(call \<Rightarrow> bool) \<Rightarrow> call list \<Rightarrow> PushButton \<Rightarrow> nat" where
  "count_fires sel [] s = 0"
| "count_fires sel (c # cs) s =
     (if sel c \<and> fst (exec c s) then 1 else 0) + count_fires sel cs (snd (exec c s))"

text \<open>A run of \<^verbatim>\<open>update()\<close> calls alone: one raw sample and the clock readings per poll.\<close>

fun polls :: "PushButton \<Rightarrow> (bool \<times> millis_reads) list \<Rightarrow> PushButton" where
  "polls s [] = s"
| "polls s (x # xs) = polls (snd (PushButton_update (fst x) (snd x) s)) xs"

text \<open>
  The branch condition of line 120 on the state before the call, \<open>raw\<close> being the fresh
  sample (line 114 has returned if it differs from the previous one).
\<close>

definition accepts :: "bool \<Rightarrow> millis_reads \<Rightarrow> PushButton \<Rightarrow> bool" where
  "accepts raw ms s =
     (raw = now s \<and> state s \<noteq> raw \<and> debounceDelay s < atDebounce ms - time s)"

subsection \<open>Shifting the clock\<close>




section \<open>PushButtonGroup: the table of button pointers\<close>

text \<open>
  A \<^verbatim>\<open>PushButton*\<close> is an address. \<^verbatim>\<open>buttons\<close> is \<^verbatim>\<open>NULL\<close>, or points to a live block, or
  is left pointing to a block that has been released (line 258 does not reset it). A live
  block is the list of its pointer-sized slots; a slot that has never been written holds
  an indeterminate value, \<open>None\<close>. \<^verbatim>\<open>buttonsSize\<close> is a C \<^verbatim>\<open>int\<close>, here an unbounded integer.
\<close>

type_synonym ref = nat
type_synonym block = "ref option list"

datatype table = Null | Live block | Freed

record PushButtonGroup =
  buttons :: table
  buttonsSize :: int

text \<open>
  Lines 246 and 262 ask for \<^verbatim>\<open>sizeof(PushButton) * buttonsSize\<close> bytes, not for
  \<^verbatim>\<open>sizeof(PushButton*)\<close> per entry, so a block for \<open>n\<close> entries has room for
  \<open>sizeof(PushButton) * n div sizeof(PushButton*)\<close> pointers. The two sizes depend on the
  missing header and on the platform and are parameters.
\<close>

record layout =
  sizeofPushButton :: nat
  sizeofPointer :: nat

definition capacity :: "layout \<Rightarrow> int \<Rightarrow> nat" where
  "capacity lay n = (sizeofPushButton lay * nat n) div sizeofPointer lay"

text \<open>A resized block keeps its contents up to the smaller of the two sizes.\<close>

definition resize :: "nat \<Rightarrow> block \<Rightarrow> block" where
  "resize cap xs = take cap xs @ replicate (cap - length xs) None"

text \<open>
  What the allocator does is not decided by the program: the request fails, or the block
  is resized where it is, or a new block is returned and the old one released. A negative
  \<^verbatim>\<open>buttonsSize\<close> converts to a request of nearly the whole address space, which fails.
  A request on a released block is undefined, and a request for 0 bytes is left to the
  implementation: neither is given a result here.
\<close>

datatype realloc_event = ReallocFails | InPlace | Moved

datatype realloc_result = Undefined | ReturnsNull | Returns block

definition realloc :: "layout \<Rightarrow> realloc_event \<Rightarrow> table \<Rightarrow> int \<Rightarrow> realloc_result" where
  "realloc lay ev tbl n =
     (case tbl of
        Freed \<Rightarrow> Undefined
      | Null \<Rightarrow> (if n = 0 then Undefined
                 else if n < 0 \<or> ev = ReallocFails then ReturnsNull
                 else Returns (resize (capacity lay n) []))
      | Live xs \<Rightarrow> (if n = 0 then Undefined
                    else if n < 0 \<or> ev = ReallocFails then ReturnsNull
                    else Returns (resize (capacity lay n) xs)))"

text \<open>Reading and writing a slot; \<open>None\<close> outside the block (and for an unwritten slot).\<close>

definition load :: "block \<Rightarrow> int \<Rightarrow> ref option" where
  "load blk i = (if 0 \<le> i \<and> nat i < length blk then blk ! nat i else None)"

definition store :: "block \<Rightarrow> int \<Rightarrow> ref \<Rightarrow> block option" where
  "store blk i p =
     (if 0 \<le> i \<and> nat i < length blk then Some (blk[nat i := Some p]) else None)"

definition PushButtonGroup_init :: PushButtonGroup where
  "PushButtonGroup_init = \<lparr>buttons = Null, buttonsSize = 0\<rparr>"

text \<open>
  \<^verbatim>\<open>add\<close>, lines 244 to 252. The result is \<open>None\<close> where the C program has no defined
  behaviour (a write outside the block, a request the model of \<open>realloc\<close> gives no result).
\<close>

definition PushButtonGroup_add ::
  "layout \<Rightarrow> realloc_event \<Rightarrow> ref \<Rightarrow> PushButtonGroup \<Rightarrow> PushButtonGroup option" where
  "PushButtonGroup_add lay ev button g =
     (let g1 = g\<lparr>buttonsSize := buttonsSize g + 1\<rparr> in
      case realloc lay ev (buttons g1) (buttonsSize g1) of
        Undefined \<Rightarrow> None
      | ReturnsNull \<Rightarrow> Some g1
      | Returns tmp \<Rightarrow>
          (case store tmp (buttonsSize g1 - 1) button of
             None \<Rightarrow> None
           | Some tmp' \<Rightarrow> Some (g1\<lparr>buttons := Live tmp'\<rparr>)))"

text \<open>
  The loop of lines 270 to 274, for a block resized in place: \<^verbatim>\<open>tmp\<close> and \<^verbatim>\<open>buttons\<close> are then
  the same block \<open>blk\<close>, read at \<open>i\<close> and written at \<open>count\<close>.
\<close>

function removeLoop :: "ref \<Rightarrow> int \<Rightarrow> block \<Rightarrow> int \<Rightarrow> int \<Rightarrow> block option" where
  "removeLoop button top' blk i count =
     (if i < top' then
        (case load blk i of
           None \<Rightarrow> None
         | Some p \<Rightarrow>
             if p = button then removeLoop button top' blk (i + 1) count
             else (case store blk count p of
                     None \<Rightarrow> None
                   | Some blk' \<Rightarrow> removeLoop button top' blk' (i + 1) (count + 1)))
      else Some blk)"
  by pat_completeness auto
termination
  by (relation "measure (\<lambda>(button, top', blk, i, count). nat (top' - i))") auto

text \<open>
  \<^verbatim>\<open>remove\<close>, lines 255 to 277. When \<open>realloc\<close> returns a new block the loop reads the old one
  through \<^verbatim>\<open>buttons\<close> after its release, and when \<^verbatim>\<open>buttons\<close> was \<^verbatim>\<open>NULL\<close> it reads through a
  null pointer: both are undefined, \<open>None\<close>. Line 258 releases the block and leaves the
  pointer.
\<close>

definition PushButtonGroup_remove ::
  "layout \<Rightarrow> realloc_event \<Rightarrow> ref \<Rightarrow> PushButtonGroup \<Rightarrow> PushButtonGroup option" where
  "PushButtonGroup_remove lay ev button g =
     (let g1 = g\<lparr>buttonsSize := buttonsSize g - 1\<rparr> in
      if buttonsSize g1 = 0 then
        (case buttons g1 of
           Null \<Rightarrow> Some g1
         | Live xs \<Rightarrow> Some (g1\<lparr>buttons := Freed\<rparr>)
         | Freed \<Rightarrow> None)
      else
        (case realloc lay ev (buttons g1) (buttonsSize g1) of
           Undefined \<Rightarrow> None
         | ReturnsNull \<Rightarrow> Some g1
         | Returns tmp \<Rightarrow>
             if ev = InPlace \<and> buttons g1 \<noteq> Null then
               (case removeLoop button (buttonsSize g1 + 1) tmp 0 0 of
                  None \<Rightarrow> None
                | Some tmp' \<Rightarrow> Some (g1\<lparr>buttons := Live tmp'\<rparr>))
             else None))"

text \<open>
  \<^verbatim>\<open>update()\<close> of the group, lines 280 to 296. The buttons live outside the group, in a heap
  indexed by address, and an entry may point to the same button as another one. The
  \<open>i\<close>-th iteration consumes the readings \<open>env i\<close>. Reading a slot outside the block, or an
  unwritten one, has no defined result.
\<close>

type_synonym heap = "ref \<Rightarrow> PushButton"
type_synonym environment = "nat \<Rightarrow> bool \<times> millis_reads"

definition slot :: "PushButtonGroup \<Rightarrow> int \<Rightarrow> ref option" where
  "slot g i = (case buttons g of Live blk \<Rightarrow> load blk i | _ \<Rightarrow> None)"

function updateLoop ::
  "PushButtonGroup \<Rightarrow> environment \<Rightarrow> int \<Rightarrow> bool \<Rightarrow> heap \<Rightarrow> (bool \<times> heap) option" where
  "updateLoop g env i st h =
     (if i < buttonsSize g then
        (case slot g i of
           None \<Rightarrow> None
         | Some p \<Rightarrow>
             (case PushButton_update (fst (env (nat i))) (snd (env (nat i))) (h p) of
                (r, b) \<Rightarrow> updateLoop g env (i + 1) (if r then True else st) (h(p := b))))
      else Some (st, h))"
  by pat_completeness auto
termination
  by (relation "measure (\<lambda>(g, env, i, st, h). nat (buttonsSize g - i))") auto

definition PushButtonGroup_update ::
  "environment \<Rightarrow> PushButtonGroup \<Rightarrow> heap \<Rightarrow> (bool \<times> heap) option" where
  "PushButtonGroup_update env g h = updateLoop g env 0 False h"

text \<open>The entries \<^verbatim>\<open>update()\<close> visits: the first \<^verbatim>\<open>buttonsSize\<close> slots of the table.\<close>

definition members :: "PushButtonGroup \<Rightarrow> ref option list" where
  "members g = map (\<lambda>i. slot g (int i)) [0 ..< nat (buttonsSize g)]"

text \<open>
  What the specification asks of the group's \<^verbatim>\<open>update()\<close>, written over a list of members:
  every member is updated once, one after the other (the \<open>k\<close>-th with the readings
  \<open>env k\<close>), whatever the earlier ones returned, and the returned values are collected.
\<close>

fun poll_members :: "ref list \<Rightarrow> nat \<Rightarrow> environment \<Rightarrow> heap \<Rightarrow> bool list \<times> heap" where
  "poll_members [] k env h = ([], h)"
| "poll_members (p # ps) k env h =
     (case PushButton_update (fst (env k)) (snd (env k)) (h p) of
        (r, b) \<Rightarrow> (case poll_members ps (Suc k) env (h(p := b)) of
                     (rs, h') \<Rightarrow> (r # rs, h')))"

text \<open>A sequence of group operations, stopping at the first undefined one.\<close>

definition chain :: "('a \<Rightarrow> 'a option) list \<Rightarrow> 'a \<Rightarrow> 'a option" where
  "chain fs x = fold (\<lambda>f r. Option.bind r f) fs (Some x)"

section \<open>Concrete objects\<close>

text \<open>
  A button in static storage (all members zero before the constructor runs), constructed
  at time 0 and begun on pin 7 in plain input mode, taking 2 for \<^verbatim>\<open>INPUT_PULLUP\<close> and 3 for
  \<^verbatim>\<open>PULLUP\<close>; a call of \<^verbatim>\<open>update()\<close> during which the clock stands at \<open>t\<close>; and the sizes the
  source's header comment gives for the AVR (19 bytes a button, 2 bytes a pointer).
\<close>

definition zeroed :: PushButton where
  "zeroed = \<lparr>pin = 0, pinMode = 0, invert = False, state = False, pState = False,
             now = False, prev = False, longState = False, isJustPressed = False,
             isJustReleased = False, longClick = False, doubleClick = False,
             time = 0, timeDouble = 0, debounceDelay = 0, longDelay = 0, doubleDelay = 0\<rparr>"

definition fresh :: PushButton where
  "fresh = PushButton_begin 2 3 7 0 (PushButton_init 0 zeroed)"

definition reads :: "millis_t \<Rightarrow> millis_reads" where
  "reads t = \<lparr>atFlip = t, atDebounce = t, atDouble = t, atStamp = t, atLong = t\<rparr>"

text \<open>
  Press at 1000, release at 2000, press at 2050, release at 2100: the second release
  comes 100 ms after the first one.
\<close>

definition double_click :: "call list" where
  "double_click =
     [Update True (reads 1000), Update True (reads 1010),
      Update False (reads 2000), Update False (reads 2010),
      Update True (reads 2050), Update True (reads 2060),
      Update False (reads 2100), Update False (reads 2110)]"

text \<open>
  \<open>pressing\<close>: the raw level has just gone high at 1000 and the window is running.
  \<open>releasing\<close>: the press has been accepted at 1010 and the raw level has gone low at 2000.
\<close>

definition pressing :: PushButton where
  "pressing = run [Update True (reads 1000)] fresh"

definition releasing :: PushButton where
  "releasing =
     run [Update True (reads 1000), Update True (reads 1010), Update False (reads 2000)] fresh"


definition avr :: layout where
  "avr = \<lparr>sizeofPushButton = 19, sizeofPointer = 2\<rparr>"

text \<open>
  The groups a sketch gets on the AVR by adding the button at address 10, then the one at
  20, then the one at 10 again; and the readings of a poll of two members, in which the
  first sees its raw level change and the second has rested for 2000 ms.
\<close>

definition one_button :: PushButtonGroup where
  "one_button = \<lparr>buttons = Live (Some 10 # replicate 8 None), buttonsSize = 1\<rparr>"

definition two_buttons :: PushButtonGroup where
  "two_buttons = \<lparr>buttons = Live (Some 10 # Some 20 # replicate 17 None), buttonsSize = 2\<rparr>"

definition twice_the_same :: PushButtonGroup where
  "twice_the_same =
     \<lparr>buttons = Live (Some 10 # Some 20 # Some 10 # replicate 25 None), buttonsSize = 3\<rparr>"

definition two_polls :: environment where
  "two_polls i = (if i = 0 then (True, reads 10) else (False, reads 2000))"


section \<open>Facts about single calls\<close>

lemmas accessor_defs =
  justPressed_def justReleased_def justClicked_def justLongClicked_def
  justDoubleClicked_def setDebounceDelay_def setLongDelay_def setDoubleDelay_def
  isPressed_def isReleased_def isLongPressed_def isLongReleased_def

lemma update_flip:
  "raw \<noteq> now s \<Longrightarrow>
   PushButton_update raw ms s = (False, s\<lparr>prev := now s, now := raw, time := atFlip ms\<rparr>)"
  by (simp add: PushButton_update_def)

lemma update_now: "now (snd (PushButton_update raw ms s)) = raw"
  by (simp add: PushButton_update_def Let_def)

lemma update_debounceDelay:
  "debounceDelay (snd (PushButton_update raw ms s)) = debounceDelay s"
  by (simp add: PushButton_update_def Let_def)

lemma update_time:
  "time (snd (PushButton_update raw ms s)) = (if raw \<noteq> now s then atFlip ms else time s)"
  by (simp add: PushButton_update_def Let_def)

lemma update_state:
  "state (snd (PushButton_update raw ms s)) = (if accepts raw ms s then raw else state s)"
  by (simp add: PushButton_update_def Let_def accepts_def)

lemma update_invert: "invert (snd (PushButton_update raw ms s)) = invert s"
  by (simp add: PushButton_update_def Let_def)

lemma update_isJustPressed:
  "isJustPressed (snd (PushButton_update raw ms s)) = (\<not> accepts raw ms s \<and> isJustPressed s)"
  by (simp add: PushButton_update_def Let_def accepts_def)

lemma update_isJustReleased:
  "isJustReleased (snd (PushButton_update raw ms s)) = (\<not> accepts raw ms s \<and> isJustReleased s)"
  by (simp add: PushButton_update_def Let_def accepts_def)

lemma update_changes_state_iff:
  "(state (snd (PushButton_update raw ms s)) \<noteq> state s) = accepts raw ms s"
  by (auto simp add: update_state accepts_def)

lemma commits_iff:
  "commits c s = (case c of Update raw ms \<Rightarrow> accepts raw ms s | _ \<Rightarrow> False)"
proof (cases c)
  case (Update raw ms)
  then show ?thesis
    using update_changes_state_iff [of raw ms s] by (simp add: commits_def)
qed (simp_all add: commits_def accessor_defs)

lemma exec_invert: "invert (snd (exec c s)) = invert s"
  by (cases c) (simp_all add: update_invert accessor_defs)

lemma exec_isPressed: "\<not> commits c s \<Longrightarrow> isPressed (snd (exec c s)) = isPressed s"
  by (simp add: commits_def isPressed_def exec_invert)

lemma exec_isReleased: "\<not> commits c s \<Longrightarrow> isReleased (snd (exec c s)) = isReleased s"
  by (simp add: commits_def isReleased_def exec_invert)

lemma commit_arms:
  "commits c s \<Longrightarrow> \<not> isJustPressed (snd (exec c s)) \<and> \<not> isJustReleased (snd (exec c s))"
  by (cases c) (simp_all add: commits_iff update_isJustPressed update_isJustReleased)

lemma guard_pressed_kept:
  "\<not> commits c s \<Longrightarrow> isJustPressed s \<Longrightarrow> isJustPressed (snd (exec c s))"
  by (cases c) (simp_all add: commits_iff update_isJustPressed accessor_defs)

lemma guard_released_kept:
  "\<not> commits c s \<Longrightarrow> isJustReleased s \<Longrightarrow> isJustReleased (snd (exec c s))"
  by (cases c) (simp_all add: commits_iff update_isJustReleased accessor_defs)

lemma guard_pressed_other:
  "\<not> commits c s \<Longrightarrow> \<not> is_justPressed c \<Longrightarrow>
   isJustPressed (snd (exec c s)) = isJustPressed s"
  by (cases c) (simp_all add: commits_iff update_isJustPressed accessor_defs)

lemma guard_released_other:
  "\<not> commits c s \<Longrightarrow> \<not> (uses_justReleased c \<and> fst (exec c s)) \<Longrightarrow>
   isJustReleased (snd (exec c s)) = isJustReleased s"
  by (cases c)
    (simp_all add: commits_iff update_isJustReleased accessor_defs split: if_splits)

lemma fires_pressed:
  "is_justPressed c \<Longrightarrow> fst (exec c s) = (isPressed s \<and> \<not> isJustPressed s)"
  by (cases c) (simp_all add: accessor_defs)

lemma fires_pressed_after:
  "is_justPressed c \<Longrightarrow> isJustPressed (snd (exec c s)) = (isJustPressed s \<or> isPressed s)"
  by (cases c) (auto simp add: accessor_defs)

lemma fires_released:
  "uses_justReleased c \<Longrightarrow> fst (exec c s) \<Longrightarrow>
   isReleased s \<and> \<not> isJustReleased s \<and> isJustReleased (snd (exec c s))"
  by (cases c) (simp_all add: accessor_defs split: if_splits)

lemma justReleased_fires: "fst (justReleased s) = (isReleased s \<and> \<not> isJustReleased s)"
  by (simp add: justReleased_def)

text \<open>The click accessors return what their inner \<^verbatim>\<open>justReleased()\<close> returns, behind a gate.\<close>

lemma click_returns:
  "fst (justClicked t s)
     = (\<not> (t - timeDouble s < doubleDelay s \<or> longClick s \<or> doubleClick s)
        \<and> fst (justReleased s))"
  "fst (justLongClicked s) = (longClick s \<and> fst (justReleased s))"
  "fst (justDoubleClicked s) = (doubleClick s \<and> fst (justReleased s))"
  by (simp_all add: justClicked_def justLongClicked_def justDoubleClicked_def
      justReleased_def)

lemma fresh_eval:
  "fresh = zeroed\<lparr>debounceDelay := 5, longDelay := 1000, doubleDelay := 300,
                  pin := 7, isJustPressed := True, isJustReleased := True\<rparr>"
  by (simp add: fresh_def PushButton_begin_def PushButton_init_def zeroed_def)

section \<open>The two levels are complements\<close>

lemma isPressed_not_isReleased: "isPressed s = (\<not> isReleased s)"
  by (auto simp: isPressed_def isReleased_def)

text \<open>
  C6. In every state a button reaches from \<^verbatim>\<open>begin\<close> by any sequence of calls (updates
  with any raw samples and clock readings, accessors, setters), \<open>isPressed\<close> is the negation
  of \<open>isReleased\<close>: exactly one of the two levels is reported.
\<close>

theorem pressed_released_complement:
  "isPressed (run cs (PushButton_begin ip pu p mode s0))
     = (\<not> isReleased (run cs (PushButton_begin ip pu p mode s0)))"
  by (rule isPressed_not_isReleased)

section \<open>A raw change only restarts the debounce window\<close>

text \<open>
  C10. When the fresh raw sample differs from the previous one (the member \<open>now\<close> before
  the call), \<^verbatim>\<open>update()\<close> returns false and the object after the call is the object before
  it with \<open>prev\<close>, \<open>now\<close> and \<open>time\<close> assigned: the debounced state and the previous state, the
  two guards, \<open>longState\<close>, \<open>longClick\<close>, \<open>doubleClick\<close> and \<open>timeDouble\<close> are what they were.
\<close>

theorem raw_change_frame:
  assumes "raw \<noteq> now s"
  shows "PushButton_update raw ms s
           = (False, s\<lparr>prev := now s, now := raw, time := atFlip ms\<rparr>)
         \<and> state (snd (PushButton_update raw ms s)) = state s
         \<and> pState (snd (PushButton_update raw ms s)) = pState s
         \<and> isJustPressed (snd (PushButton_update raw ms s)) = isJustPressed s
         \<and> isJustReleased (snd (PushButton_update raw ms s)) = isJustReleased s
         \<and> longState (snd (PushButton_update raw ms s)) = longState s
         \<and> longClick (snd (PushButton_update raw ms s)) = longClick s
         \<and> doubleClick (snd (PushButton_update raw ms s)) = doubleClick s
         \<and> timeDouble (snd (PushButton_update raw ms s)) = timeDouble s"
  using assms by (simp add: update_flip)

theorem raw_change_frame_witness:
  "True \<noteq> now fresh
   \<and> PushButton_update True (reads 10) fresh
       = (False, fresh\<lparr>prev := False, now := True, time := 10\<rparr>)
   \<and> state (snd (PushButton_update True (reads 10) fresh)) = False"
proof -
  have h: "True \<noteq> now fresh" by (simp add: fresh_eval zeroed_def)
  have "now fresh = False" "atFlip (reads 10) = 10" "state fresh = False"
    by (simp_all add: fresh_eval zeroed_def reads_def)
  with raw_change_frame [OF h, of "reads 10"] h show ?thesis by simp
qed

section \<open>Debouncing\<close>

lemma polls_snoc:
  "polls s (xs @ [x]) = snd (PushButton_update (fst x) (snd x) (polls s xs))"
  by (induction xs arbitrary: s) simp_all

lemma polls_debounceDelay: "debounceDelay (polls s xs) = debounceDelay s"
  by (induction xs arbitrary: s) (simp_all add: update_debounceDelay)

lemma polls_now: "now (polls s xs) = last (now s # map fst xs)"
  by (induction xs arbitrary: s) (simp_all add: update_now)

text \<open>
  Where the window starts: \<open>time\<close> is the reading taken at the last poll whose sample
  differed from the one before it, and is untouched if no poll saw a change.
\<close>

lemma polls_window:
  "((\<forall>x\<in>set xs. fst x = now s0) \<and> time (polls s0 xs) = time s0)
   \<or> (\<exists>ys z zs. xs = ys @ z # zs \<and> (\<forall>x\<in>set (z # zs). fst x = now (polls s0 xs))
         \<and> last (now s0 # map fst ys) \<noteq> fst z \<and> time (polls s0 xs) = atFlip (snd z))"
proof (induction xs rule: rev_induct)
  case Nil
  then show ?case by simp
next
  case (snoc x xs)
  let ?s = "polls s0 xs"
  show ?case
  proof (cases "fst x = now ?s")
    case True
    from snoc show ?thesis
    proof
      assume a: "(\<forall>x\<in>set xs. fst x = now s0) \<and> time ?s = time s0"
      then have "now ?s = now s0" by (cases xs rule: rev_cases) (simp_all add: polls_now)
      with a True show ?thesis by (simp add: polls_snoc update_time)
    next
      assume "\<exists>ys z zs. xs = ys @ z # zs \<and> (\<forall>x\<in>set (z # zs). fst x = now ?s)
         \<and> last (now s0 # map fst ys) \<noteq> fst z \<and> time ?s = atFlip (snd z)"
      then obtain ys z zs where b: "xs = ys @ z # zs" "\<forall>x\<in>set (z # zs). fst x = now ?s"
        "last (now s0 # map fst ys) \<noteq> fst z" "time ?s = atFlip (snd z)" by blast
      have "xs @ [x] = ys @ z # (zs @ [x])" using b(1) by simp
      moreover have "\<forall>y\<in>set (z # (zs @ [x])). fst y = now (polls s0 (xs @ [x]))"
        using b(2) True by (simp add: polls_snoc update_now)
      moreover have "time (polls s0 (xs @ [x])) = atFlip (snd z)"
        using b(4) True by (simp add: polls_snoc update_time)
      ultimately show ?thesis using b(3) by blast
    qed
  next
    case False
    have "xs @ [x] = xs @ x # []" by simp
    moreover have "\<forall>y\<in>set (x # []). fst y = now (polls s0 (xs @ [x]))"
      by (simp add: polls_snoc update_now)
    moreover have "last (now s0 # map fst xs) \<noteq> fst x"
      using False by (simp add: polls_now)
    moreover have "time (polls s0 (xs @ [x])) = atFlip (snd x)"
      using False by (simp add: polls_snoc update_time)
    ultimately show ?thesis by blast
  qed
qed

text \<open>With the debounced state at the raw level, samples that repeat it change neither.\<close>

lemma polls_steady:
  "(\<forall>x\<in>set xs. fst x = now s0) \<Longrightarrow> state s0 = now s0 \<Longrightarrow>
   state (polls s0 xs) = state s0 \<and> now (polls s0 xs) = now s0"
proof (induction xs arbitrary: s0)
  case Nil
  then show ?case by simp
next
  case (Cons x xs)
  let ?s1 = "snd (PushButton_update (fst x) (snd x) s0)"
  from Cons.prems have fx: "fst x = now s0" by simp
  with Cons.prems(2) have st: "state ?s1 = state s0" by (simp add: update_state accepts_def)
  have nw: "now ?s1 = now s0" using fx by (simp add: update_now)
  from Cons.prems nw have "\<forall>y\<in>set xs. fst y = now ?s1" by simp
  moreover from st nw Cons.prems(2) have "state ?s1 = now ?s1" by simp
  ultimately have "state (polls ?s1 xs) = state ?s1 \<and> now (polls ?s1 xs) = now ?s1"
    by (rule Cons.IH)
  with st nw show ?case by simp
qed

text \<open>
  C5. Let a button in state \<open>s0\<close> be polled with the samples \<open>xs\<close> and then with the
  sample \<open>raw\<close>. If that last poll commits a new debounced state, then \<open>raw\<close> is the sample
  of the poll before, and either some earlier poll \<open>z\<close> saw the raw reading change to
  \<open>raw\<close>, every sample since is \<open>raw\<close>, and the wrapping difference between the clock now
  (line 120) and the clock at \<open>z\<close> (line 115) is strictly greater than \<open>debounceDelay\<close>; or
  no poll saw a change, all samples are the \<open>now\<close> of \<open>s0\<close>, and the difference is taken
  from the \<open>time\<close> of \<open>s0\<close>; this second case cannot arise when \<open>s0\<close> has its debounced state
  at the raw level, as it has after \<^verbatim>\<open>begin\<close>. And if \<open>raw\<close> differs from the sample of the poll before, the poll
  returns false and sets \<open>time\<close> to the clock now, changing \<open>prev\<close> and \<open>now\<close> beside it: the
  window starts again.
\<close>

theorem debounce_window:
  "(state (snd (PushButton_update raw ms (polls s0 xs))) \<noteq> state (polls s0 xs) \<longrightarrow>
      raw = last (now s0 # map fst xs)
      \<and> (((\<forall>x\<in>set xs. fst x = raw) \<and> now s0 = raw
           \<and> debounceDelay s0 < atDebounce ms - time s0)
         \<or> (\<exists>ys z zs. xs = ys @ z # zs \<and> (\<forall>x\<in>set (z # zs). fst x = raw)
               \<and> last (now s0 # map fst ys) \<noteq> raw
               \<and> debounceDelay s0 < atDebounce ms - atFlip (snd z))))
   \<and> (state (snd (PushButton_update raw ms (polls s0 xs))) \<noteq> state (polls s0 xs)
        \<and> state s0 = now s0 \<longrightarrow>
        \<not> (\<forall>x\<in>set xs. fst x = now s0))
   \<and> (raw \<noteq> last (now s0 # map fst xs) \<longrightarrow>
        PushButton_update raw ms (polls s0 xs)
          = (False, (polls s0 xs)\<lparr>prev := last (now s0 # map fst xs), now := raw,
                                   time := atFlip ms\<rparr>))"
proof (intro conjI impI)
  assume "state (snd (PushButton_update raw ms (polls s0 xs))) \<noteq> state (polls s0 xs)"
  then have acc: "accepts raw ms (polls s0 xs)"
    by (simp only: update_changes_state_iff)
  then have r: "raw = now (polls s0 xs)"
    and d: "debounceDelay s0 < atDebounce ms - time (polls s0 xs)"
    by (simp_all add: accepts_def polls_debounceDelay)
  from r show "raw = last (now s0 # map fst xs)" by (simp add: polls_now)
  from polls_window [of xs s0]
  show "((\<forall>x\<in>set xs. fst x = raw) \<and> now s0 = raw
           \<and> debounceDelay s0 < atDebounce ms - time s0)
         \<or> (\<exists>ys z zs. xs = ys @ z # zs \<and> (\<forall>x\<in>set (z # zs). fst x = raw)
               \<and> last (now s0 # map fst ys) \<noteq> raw
               \<and> debounceDelay s0 < atDebounce ms - atFlip (snd z))"
  proof
    assume a: "(\<forall>x\<in>set xs. fst x = now s0) \<and> time (polls s0 xs) = time s0"
    then have "now (polls s0 xs) = now s0"
      by (cases xs rule: rev_cases) (simp_all add: polls_now)
    with a r d show ?thesis by simp
  next
    assume "\<exists>ys z zs. xs = ys @ z # zs
         \<and> (\<forall>x\<in>set (z # zs). fst x = now (polls s0 xs))
         \<and> last (now s0 # map fst ys) \<noteq> fst z \<and> time (polls s0 xs) = atFlip (snd z)"
    then obtain ys z zs where b: "xs = ys @ z # zs"
      "\<forall>x\<in>set (z # zs). fst x = now (polls s0 xs)"
      "last (now s0 # map fst ys) \<noteq> fst z" "time (polls s0 xs) = atFlip (snd z)"
      by blast
    from b(2) r have all: "\<forall>x\<in>set (z # zs). fst x = raw" by simp
    then have "fst z = raw" by simp
    with b(3) have "last (now s0 # map fst ys) \<noteq> raw" by simp
    moreover from d b(4) have "debounceDelay s0 < atDebounce ms - atFlip (snd z)" by simp
    ultimately show ?thesis using b(1) all by blast
  qed
next
  assume a: "state (snd (PushButton_update raw ms (polls s0 xs))) \<noteq> state (polls s0 xs)
               \<and> state s0 = now s0"
  then have acc: "accepts raw ms (polls s0 xs)"
    by (simp only: update_changes_state_iff)
  show "\<not> (\<forall>x\<in>set xs. fst x = now s0)"
  proof
    assume "\<forall>x\<in>set xs. fst x = now s0"
    with a have "state (polls s0 xs) = state s0 \<and> now (polls s0 xs) = now s0"
      using polls_steady [of xs s0] by blast
    moreover from acc have "raw = now (polls s0 xs)" "state (polls s0 xs) \<noteq> raw"
      by (simp_all add: accepts_def)
    ultimately show False using a by metis
  qed
next
  assume "raw \<noteq> last (now s0 # map fst xs)"
  then have "raw \<noteq> now (polls s0 xs)" by (simp add: polls_now)
  then show "PushButton_update raw ms (polls s0 xs)
          = (False, (polls s0 xs)\<lparr>prev := last (now s0 # map fst xs), now := raw,
                                   time := atFlip ms\<rparr>)"
    by (simp add: update_flip polls_now)
qed

theorem debounce_window_witness:
  "state (snd (PushButton_update True (reads 16)
                 (polls fresh [(True, reads 10), (True, reads 12)])))
     \<noteq> state (polls fresh [(True, reads 10), (True, reads 12)])
   \<and> (\<exists>ys z zs. [(True, reads 10), (True, reads 12)] = ys @ z # zs
          \<and> (\<forall>x\<in>set (z # zs). fst x = True)
          \<and> last (now fresh # map fst ys) \<noteq> True
          \<and> debounceDelay fresh < atDebounce (reads 16) - atFlip (snd z))
   \<and> state fresh = now fresh
   \<and> \<not> (\<forall>x\<in>set [(True, reads 10), (True, reads 12)]. fst x = now fresh)
   \<and> False \<noteq> last (now fresh # map fst [(True, reads 10), (True, reads 12)])
   \<and> fst (PushButton_update False (reads 16)
            (polls fresh [(True, reads 10), (True, reads 12)])) = False"
proof -
  let ?xs = "[(True, reads 10), (True, reads 12)]"
  have nf: "now fresh = False" and sf: "state fresh = now fresh"
    by (simp_all add: fresh_eval zeroed_def)
  have h1: "state (snd (PushButton_update True (reads 16) (polls fresh ?xs)))
              \<noteq> state (polls fresh ?xs)"
    by (simp add: accepts_def update_now update_time update_state
        update_debounceDelay fresh_eval zeroed_def reads_def)
  have h2: "False \<noteq> last (now fresh # map fst ?xs)" by simp
  note w = debounce_window [of True "reads 16" fresh ?xs]
  from w h1 nf have "\<exists>ys z zs. ?xs = ys @ z # zs
          \<and> (\<forall>x\<in>set (z # zs). fst x = True)
          \<and> last (now fresh # map fst ys) \<noteq> True
          \<and> debounceDelay fresh < atDebounce (reads 16) - atFlip (snd z)"
    by simp
  moreover
  from w h1 sf have "\<not> (\<forall>x\<in>set ?xs. fst x = now fresh)" by blast
  moreover
  note debounce_window
    [of False "reads 16" fresh ?xs, THEN conjunct2, THEN conjunct2, THEN mp, OF h2]
  then have "fst (PushButton_update False (reads 16) (polls fresh ?xs)) = False" by simp
  ultimately show ?thesis using h1 h2 sf by blast
qed

section \<open>One-shot edges\<close>

lemma quiet_commits_pressed: "quiet commits cs s \<Longrightarrow> quiet commits_pressed cs s"
  by (induction cs arbitrary: s) (simp_all add: commits_pressed_def)

lemma quiet_commits_released: "quiet commits cs s \<Longrightarrow> quiet commits_released cs s"
  by (induction cs arbitrary: s) (simp_all add: commits_released_def)

text \<open>
  With the guard consumed, or at the other level, \<^verbatim>\<open>justPressed()\<close> stays false until an
  update commits the pressed level; the same for \<^verbatim>\<open>justReleased()\<close>.
\<close>

lemma pressed_silent:
  "quiet commits_pressed cs s \<Longrightarrow> isJustPressed s \<or> \<not> isPressed s \<Longrightarrow>
   count_fires is_justPressed cs s = 0"
proof (induction cs arbitrary: s)
  case Nil
  then show ?case by simp
next
  case (Cons c cs)
  then have nc: "\<not> commits_pressed c s" and rest: "quiet commits_pressed cs (snd (exec c s))"
    by simp_all
  have still: "\<not> (is_justPressed c \<and> fst (exec c s))"
    using Cons.prems(2) by (auto simp: fires_pressed)
  have "isJustPressed (snd (exec c s)) \<or> \<not> isPressed (snd (exec c s))"
  proof (cases "commits c s")
    case True
    with nc show ?thesis by (simp add: commits_pressed_def)
  next
    case False
    with Cons.prems(2) show ?thesis by (auto simp: exec_isPressed guard_pressed_kept)
  qed
  with Cons.IH rest have "count_fires is_justPressed cs (snd (exec c s)) = 0" by blast
  with still show ?case by simp
qed

lemma released_silent:
  "quiet commits_released cs s \<Longrightarrow> isJustReleased s \<or> \<not> isReleased s \<Longrightarrow>
   count_fires uses_justReleased cs s = 0"
proof (induction cs arbitrary: s)
  case Nil
  then show ?case by simp
next
  case (Cons c cs)
  then have nc: "\<not> commits_released c s"
    and rest: "quiet commits_released cs (snd (exec c s))"
    by simp_all
  have still: "\<not> (uses_justReleased c \<and> fst (exec c s))"
    using Cons.prems(2) by (auto dest: fires_released)
  have "isJustReleased (snd (exec c s)) \<or> \<not> isReleased (snd (exec c s))"
  proof (cases "commits c s")
    case True
    with nc show ?thesis by (simp add: commits_released_def)
  next
    case False
    with Cons.prems(2) show ?thesis by (auto simp: exec_isReleased guard_released_kept)
  qed
  with Cons.IH rest have "count_fires uses_justReleased cs (snd (exec c s)) = 0" by blast
  with still show ?case by simp
qed

lemma pressed_at_most_once:
  "quiet commits_pressed cs s \<Longrightarrow> count_fires is_justPressed cs s \<le> 1"
proof (induction cs arbitrary: s)
  case Nil
  then show ?case by simp
next
  case (Cons c cs)
  then have rest: "quiet commits_pressed cs (snd (exec c s))" by simp
  show ?case
  proof (cases "is_justPressed c \<and> fst (exec c s)")
    case True
    then have "isJustPressed (snd (exec c s))"
      by (auto simp add: fires_pressed fires_pressed_after)
    with rest have "count_fires is_justPressed cs (snd (exec c s)) = 0"
      by (simp add: pressed_silent)
    then show ?thesis by simp
  next
    case False
    with Cons.IH [OF rest] show ?thesis by auto
  qed
qed

lemma released_at_most_once:
  "quiet commits_released cs s \<Longrightarrow> count_fires uses_justReleased cs s \<le> 1"
proof (induction cs arbitrary: s)
  case Nil
  then show ?case by simp
next
  case (Cons c cs)
  then have rest: "quiet commits_released cs (snd (exec c s))" by simp
  show ?case
  proof (cases "uses_justReleased c \<and> fst (exec c s)")
    case True
    then have "isJustReleased (snd (exec c s))" by (auto dest: fires_released)
    with rest have "count_fires uses_justReleased cs (snd (exec c s)) = 0"
      by (simp add: released_silent)
    then show ?thesis by simp
  next
    case False
    with Cons.IH [OF rest] show ?thesis by auto
  qed
qed

text \<open>An armed guard stays armed, at the same level, while nothing fires and nothing commits.\<close>

lemma pressed_stays_armed:
  "quiet commits cs s \<Longrightarrow> isPressed s \<Longrightarrow> \<not> isJustPressed s \<Longrightarrow>
   count_fires is_justPressed cs s = 0 \<Longrightarrow>
   isPressed (run cs s) \<and> \<not> isJustPressed (run cs s)"
proof (induction cs arbitrary: s)
  case Nil
  then show ?case by simp
next
  case (Cons c cs)
  then have nc: "\<not> commits c s" and rest: "quiet commits cs (snd (exec c s))" by simp_all
  from Cons.prems(4) have nf: "\<not> (is_justPressed c \<and> fst (exec c s))"
    and z: "count_fires is_justPressed cs (snd (exec c s)) = 0"
    by (simp_all split: if_splits)
  from nf Cons.prems(2,3) have other: "\<not> is_justPressed c" by (auto simp: fires_pressed)
  have "isPressed (snd (exec c s))" "\<not> isJustPressed (snd (exec c s))"
    using nc other Cons.prems(2,3) by (simp_all add: exec_isPressed guard_pressed_other)
  from Cons.IH [OF rest this z] show ?case by simp
qed

lemma released_stays_armed:
  "quiet commits cs s \<Longrightarrow> isReleased s \<Longrightarrow> \<not> isJustReleased s \<Longrightarrow>
   count_fires uses_justReleased cs s = 0 \<Longrightarrow>
   isReleased (run cs s) \<and> \<not> isJustReleased (run cs s)"
proof (induction cs arbitrary: s)
  case Nil
  then show ?case by simp
next
  case (Cons c cs)
  then have nc: "\<not> commits c s" and rest: "quiet commits cs (snd (exec c s))" by simp_all
  from Cons.prems(4) have nf: "\<not> (uses_justReleased c \<and> fst (exec c s))"
    and z: "count_fires uses_justReleased cs (snd (exec c s)) = 0"
    by (simp_all split: if_splits)
  have "isReleased (snd (exec c s))" "\<not> isJustReleased (snd (exec c s))"
    using nc nf Cons.prems(2,3) by (simp_all add: exec_isReleased guard_released_other)
  from Cons.IH [OF rest this z] show ?case by simp
qed

lemma pressed_armed_fires:
  "quiet commits cs s \<Longrightarrow> isPressed s \<Longrightarrow> \<not> isJustPressed s \<Longrightarrow> JustPressed \<in> set cs \<Longrightarrow>
   1 \<le> count_fires is_justPressed cs s"
proof (induction cs arbitrary: s)
  case Nil
  then show ?case by simp
next
  case (Cons c cs)
  then have nc: "\<not> commits c s" and rest: "quiet commits cs (snd (exec c s))" by simp_all
  show ?case
  proof (cases "is_justPressed c")
    case True
    with Cons.prems show ?thesis by (simp add: fires_pressed)
  next
    case False
    then have "c \<noteq> JustPressed" by auto
    with Cons.prems have mem: "JustPressed \<in> set cs" by simp
    have "isPressed (snd (exec c s))" "\<not> isJustPressed (snd (exec c s))"
      using nc False Cons.prems by (simp_all add: exec_isPressed guard_pressed_other)
    from Cons.IH [OF rest this mem] show ?thesis by simp
  qed
qed

lemma released_armed_fires:
  "quiet commits cs s \<Longrightarrow> isReleased s \<Longrightarrow> \<not> isJustReleased s \<Longrightarrow>
   JustReleased \<in> set cs \<Longrightarrow> 1 \<le> count_fires uses_justReleased cs s"
proof (induction cs arbitrary: s)
  case Nil
  then show ?case by simp
next
  case (Cons c cs)
  then have nc: "\<not> commits c s" and rest: "quiet commits cs (snd (exec c s))" by simp_all
  show ?case
  proof (cases "uses_justReleased c \<and> fst (exec c s)")
    case True
    then show ?thesis by simp
  next
    case False
    have "c \<noteq> JustReleased"
    proof
      assume "c = JustReleased"
      with False Cons.prems show False by (simp add: justReleased_fires)
    qed
    with Cons.prems have mem: "JustReleased \<in> set cs" by simp
    have "isReleased (snd (exec c s))" "\<not> isJustReleased (snd (exec c s))"
      using nc False Cons.prems by (simp_all add: exec_isReleased guard_released_other)
    from Cons.IH [OF rest this mem] show ?thesis by simp
  qed
qed

text \<open>
  C7, as the code has it. Count the calls of \<^verbatim>\<open>justPressed()\<close> that return true, and the
  calls that return true through \<^verbatim>\<open>justReleased()\<close> (made directly, or by one of the three
  click accessors, which are built on it).
  \<^item> In a sequence of calls in which no update commits the pressed level, at most one
    \<^verbatim>\<open>justPressed()\<close> returns true; likewise for the released level and \<^verbatim>\<open>justReleased()\<close>.
  \<^item> After an update has committed the pressed level, and as long as no update has
    committed a level again, a sequence that calls \<^verbatim>\<open>justPressed()\<close> at all has exactly
    one such call returning true, and as long as none has, the next one does; likewise
    for \<^verbatim>\<open>justReleased()\<close>.
  \<^item> A call that is not a committing update leaves a consumed guard consumed.
\<close>

theorem one_shot_edges:
  "(quiet commits_pressed cs s \<longrightarrow> count_fires is_justPressed cs s \<le> 1)
   \<and> (quiet commits_released cs s \<longrightarrow> count_fires uses_justReleased cs s \<le> 1)
   \<and> (commits_pressed c s0 \<and> quiet commits cs (snd (exec c s0)) \<and> JustPressed \<in> set cs \<longrightarrow>
        count_fires is_justPressed cs (snd (exec c s0)) = 1)
   \<and> (commits_released c s0 \<and> quiet commits cs (snd (exec c s0)) \<and> JustReleased \<in> set cs \<longrightarrow>
        count_fires uses_justReleased cs (snd (exec c s0)) = 1)
   \<and> (commits_pressed c s0 \<and> quiet commits cs (snd (exec c s0))
        \<and> count_fires is_justPressed cs (snd (exec c s0)) = 0 \<longrightarrow>
        fst (justPressed (run cs (snd (exec c s0)))))
   \<and> (commits_released c s0 \<and> quiet commits cs (snd (exec c s0))
        \<and> count_fires uses_justReleased cs (snd (exec c s0)) = 0 \<longrightarrow>
        fst (justReleased (run cs (snd (exec c s0)))))
   \<and> (\<not> commits c s \<and> isJustPressed s \<longrightarrow> isJustPressed (snd (exec c s)))
   \<and> (\<not> commits c s \<and> isJustReleased s \<longrightarrow> isJustReleased (snd (exec c s)))"
proof (intro conjI impI)
  assume "quiet commits_pressed cs s"
  then show "count_fires is_justPressed cs s \<le> 1" by (rule pressed_at_most_once)
next
  assume "quiet commits_released cs s"
  then show "count_fires uses_justReleased cs s \<le> 1" by (rule released_at_most_once)
next
  assume a: "commits_pressed c s0 \<and> quiet commits cs (snd (exec c s0)) \<and> JustPressed \<in> set cs"
  then have armed: "isPressed (snd (exec c s0))" "\<not> isJustPressed (snd (exec c s0))"
    by (simp_all add: commits_pressed_def commit_arms)
  with a have "1 \<le> count_fires is_justPressed cs (snd (exec c s0))"
    using pressed_armed_fires [of cs "snd (exec c s0)"] by blast
  moreover from a have "count_fires is_justPressed cs (snd (exec c s0)) \<le> 1"
    using pressed_at_most_once [of cs "snd (exec c s0)"] quiet_commits_pressed by blast
  ultimately show "count_fires is_justPressed cs (snd (exec c s0)) = 1" by simp
next
  assume a: "commits_released c s0 \<and> quiet commits cs (snd (exec c s0))
               \<and> JustReleased \<in> set cs"
  then have armed: "isReleased (snd (exec c s0))" "\<not> isJustReleased (snd (exec c s0))"
    by (simp_all add: commits_released_def commit_arms)
  with a have "1 \<le> count_fires uses_justReleased cs (snd (exec c s0))"
    using released_armed_fires [of cs "snd (exec c s0)"] by blast
  moreover from a have "count_fires uses_justReleased cs (snd (exec c s0)) \<le> 1"
    using released_at_most_once [of cs "snd (exec c s0)"] quiet_commits_released by blast
  ultimately show "count_fires uses_justReleased cs (snd (exec c s0)) = 1" by simp
next
  assume a: "commits_pressed c s0 \<and> quiet commits cs (snd (exec c s0))
               \<and> count_fires is_justPressed cs (snd (exec c s0)) = 0"
  then have armed: "isPressed (snd (exec c s0))" "\<not> isJustPressed (snd (exec c s0))"
    by (simp_all add: commits_pressed_def commit_arms)
  with a have "isPressed (run cs (snd (exec c s0))) \<and> \<not> isJustPressed (run cs (snd (exec c s0)))"
    using pressed_stays_armed [of cs "snd (exec c s0)"] by blast
  then show "fst (justPressed (run cs (snd (exec c s0))))" by (simp add: justPressed_def)
next
  assume a: "commits_released c s0 \<and> quiet commits cs (snd (exec c s0))
               \<and> count_fires uses_justReleased cs (snd (exec c s0)) = 0"
  then have armed: "isReleased (snd (exec c s0))" "\<not> isJustReleased (snd (exec c s0))"
    by (simp_all add: commits_released_def commit_arms)
  with a have "isReleased (run cs (snd (exec c s0)))
                 \<and> \<not> isJustReleased (run cs (snd (exec c s0)))"
    using released_stays_armed [of cs "snd (exec c s0)"] by blast
  then show "fst (justReleased (run cs (snd (exec c s0))))" by (simp add: justReleased_fires)
next
  assume "\<not> commits c s \<and> isJustPressed s"
  then show "isJustPressed (snd (exec c s))" by (simp add: guard_pressed_kept)
next
  assume "\<not> commits c s \<and> isJustReleased s"
  then show "isJustReleased (snd (exec c s))" by (simp add: guard_released_kept)
qed

theorem one_shot_edges_witness:
  "commits_pressed (Update True (reads 1010)) pressing
   \<and> quiet commits [IsPressed, JustPressed, Update True (reads 1500), JustPressed]
        (snd (exec (Update True (reads 1010)) pressing))
   \<and> JustPressed \<in> set [IsPressed, JustPressed, Update True (reads 1500), JustPressed]
   \<and> count_fires is_justPressed [IsPressed, JustPressed, Update True (reads 1500), JustPressed]
        (snd (exec (Update True (reads 1010)) pressing)) = 1
   \<and> commits_released (Update False (reads 2010)) releasing
   \<and> quiet commits [JustClicked 2100, JustReleased, JustClicked 2500]
        (snd (exec (Update False (reads 2010)) releasing))
   \<and> JustReleased \<in> set [JustClicked 2100, JustReleased, JustClicked 2500]
   \<and> count_fires uses_justReleased [JustClicked 2100, JustReleased, JustClicked 2500]
        (snd (exec (Update False (reads 2010)) releasing)) = 1
   \<and> count_fires is_justPressed [IsPressed] (snd (exec (Update True (reads 1010)) pressing)) = 0
   \<and> fst (justPressed (run [IsPressed] (snd (exec (Update True (reads 1010)) pressing))))
   \<and> count_fires uses_justReleased [JustClicked 2100]
        (snd (exec (Update False (reads 2010)) releasing)) = 0
   \<and> fst (justReleased (run [JustClicked 2100] (snd (exec (Update False (reads 2010)) releasing))))
   \<and> \<not> commits (Update False (reads 2000)) fresh
   \<and> isJustPressed fresh \<and> isJustReleased fresh
   \<and> isJustPressed (snd (exec (Update False (reads 2000)) fresh))
   \<and> isJustReleased (snd (exec (Update False (reads 2000)) fresh))"
proof -
  let ?p = "Update True (reads 1010)" and ?r = "Update False (reads 2010)"
  let ?ps = "[IsPressed, JustPressed, Update True (reads 1500), JustPressed]"
  let ?rs = "[JustClicked 2100, JustReleased, JustClicked 2500]"
  have p1: "commits_pressed ?p pressing" by code_simp
  have p2: "quiet commits ?ps (snd (exec ?p pressing))" by code_simp
  have p3: "JustPressed \<in> set ?ps" by simp
  have p4: "quiet commits [IsPressed] (snd (exec ?p pressing))" by code_simp
  have p5: "count_fires is_justPressed [IsPressed] (snd (exec ?p pressing)) = 0" by simp
  have r1: "commits_released ?r releasing" by code_simp
  have r2: "quiet commits ?rs (snd (exec ?r releasing))" by code_simp
  have r3: "JustReleased \<in> set ?rs" by simp
  have r4: "quiet commits [JustClicked 2100] (snd (exec ?r releasing))" by code_simp
  have r5: "count_fires uses_justReleased [JustClicked 2100] (snd (exec ?r releasing)) = 0"
    by code_simp
  have g1: "\<not> commits (Update False (reads 2000)) fresh" by code_simp
  have g2: "isJustPressed fresh" "isJustReleased fresh"
    by (simp_all add: fresh_eval zeroed_def)
  note a = one_shot_edges [of ?ps "snd (exec ?p pressing)" ?p pressing]
  note b = one_shot_edges [of ?rs "snd (exec ?r releasing)" ?r releasing]
  note c = one_shot_edges [of "[IsPressed]" fresh ?p pressing]
  note d = one_shot_edges [of "[JustClicked 2100]" fresh ?r releasing]
  note e = one_shot_edges [of "[]" fresh "Update False (reads 2000)" fresh]
  from a p1 p2 p3
  have c1: "count_fires is_justPressed ?ps (snd (exec ?p pressing)) = 1" by blast
  from b r1 r2 r3
  have c2: "count_fires uses_justReleased ?rs (snd (exec ?r releasing)) = 1" by blast
  from c p1 p4 p5
  have c3: "fst (justPressed (run [IsPressed] (snd (exec ?p pressing))))" by blast
  from d r1 r4 r5
  have c4: "fst (justReleased (run [JustClicked 2100] (snd (exec ?r releasing))))" by blast
  from e g1 g2
  have c5: "isJustPressed (snd (exec (Update False (reads 2000)) fresh))"
    "isJustReleased (snd (exec (Update False (reads 2000)) fresh))" by blast+
  from p1 p2 p3 c1 r1 r2 r3 c2 p5 c3 r5 c4 g1 g2 c5 show ?thesis by blast
qed

text \<open>
  The claim as written promises one true return for every accepted transition. Every
  commit clears both guards (lines 124 and 125), and \<^verbatim>\<open>justPressed()\<close> tests the level it
  finds (line 177): a press that is accepted at 1010 and not queried before the release
  is accepted at 1060 is never reported, however often \<^verbatim>\<open>justPressed()\<close> is called then.
\<close>

theorem unconsumed_press_is_lost:
  "commits_pressed (Update True (reads 1010)) pressing
   \<and> rets [Update True (reads 1000), Update True (reads 1010),
            Update False (reads 1050), Update False (reads 1060),
            JustPressed, JustPressed, JustPressed] fresh
       = [False, True, False, True, False, False, False]"
  by code_simp

section \<open>After begin\<close>

lemma events_silent:
  "quiet commits cs s \<Longrightarrow> isJustPressed s \<Longrightarrow> isJustReleased s \<Longrightarrow>
   count_fires is_event cs s = 0"
proof (induction cs arbitrary: s)
  case Nil
  then show ?case by simp
next
  case (Cons c cs)
  then have nc: "\<not> commits c s" and rest: "quiet commits cs (snd (exec c s))" by simp_all
  have still: "\<not> (is_event c \<and> fst (exec c s))"
    using Cons.prems(2,3) by (auto simp: is_event_def fires_pressed dest: fires_released)
  have "isJustPressed (snd (exec c s))" "isJustReleased (snd (exec c s))"
    using nc Cons.prems(2,3) by (simp_all add: guard_pressed_kept guard_released_kept)
  from Cons.IH [OF rest this] still show ?case by simp
qed

lemma begin_guards:
  "isJustPressed (PushButton_begin ip pu p mode s)
   \<and> isJustReleased (PushButton_begin ip pu p mode s)
   \<and> \<not> longState (PushButton_begin ip pu p mode s)
   \<and> \<not> longClick (PushButton_begin ip pu p mode s)"
  by (simp add: PushButton_begin_def Let_def)

text \<open>
  C4, as the code has it. After \<^verbatim>\<open>begin(pin, mode)\<close>, for every pin, mode and prior
  contents of the object, both one-shot guards are set (already consumed) and \<open>longState\<close>
  and \<open>longClick\<close> are cleared; and in any sequence of calls after it in which no update
  commits a new debounced level, none of \<^verbatim>\<open>justPressed\<close>, \<^verbatim>\<open>justReleased\<close>, \<^verbatim>\<open>justClicked\<close>,
  \<^verbatim>\<open>justLongClicked\<close>, \<^verbatim>\<open>justDoubleClicked\<close> returns true.
\<close>

theorem begin_silences_events:
  "isJustPressed (PushButton_begin ip pu p mode s)
   \<and> isJustReleased (PushButton_begin ip pu p mode s)
   \<and> \<not> longState (PushButton_begin ip pu p mode s)
   \<and> \<not> longClick (PushButton_begin ip pu p mode s)
   \<and> (quiet commits cs (PushButton_begin ip pu p mode s) \<longrightarrow>
        count_fires is_event cs (PushButton_begin ip pu p mode s) = 0)"
  using begin_guards [of ip pu p mode s] events_silent [of cs "PushButton_begin ip pu p mode s"]
  by blast

theorem begin_silences_events_witness:
  "quiet commits
     [JustPressed, Update False (reads 2000), JustReleased, JustClicked 5000,
      JustLongClicked, JustDoubleClicked, Update True (reads 6000), JustPressed]
     (PushButton_begin 2 3 7 0 (run double_click fresh))
   \<and> count_fires is_event
     [JustPressed, Update False (reads 2000), JustReleased, JustClicked 5000,
      JustLongClicked, JustDoubleClicked, Update True (reads 6000), JustPressed]
     (PushButton_begin 2 3 7 0 (run double_click fresh)) = 0
   \<and> isJustPressed (PushButton_begin 2 3 7 0 (run double_click fresh))
   \<and> isJustReleased (PushButton_begin 2 3 7 0 (run double_click fresh))"
proof -
  let ?cs = "[JustPressed, Update False (reads 2000), JustReleased, JustClicked 5000,
      JustLongClicked, JustDoubleClicked, Update True (reads 6000), JustPressed]"
  have h: "quiet commits ?cs (PushButton_begin 2 3 7 0 (run double_click fresh))"
    by code_simp
  from begin_silences_events [of 2 3 7 0 "run double_click fresh" ?cs] h
  show ?thesis by blast
qed

text \<open>
  The claim as written also lists \<open>doubleClick\<close> among the latches \<^verbatim>\<open>begin\<close> clears. Lines 56
  to 88 do not assign it: a button on which a double click is latched keeps the latch
  through a second \<^verbatim>\<open>begin\<close>.
\<close>

theorem begin_keeps_doubleClick:
  "doubleClick (PushButton_begin 2 3 7 0 (run double_click fresh))"
  by code_simp

section \<open>Clock arithmetic\<close>















section \<open>The group\<close>

text \<open>The two loops are unfolded one step at a time, where a proof asks for it.\<close>

declare updateLoop.simps [simp del]

declare removeLoop.simps [simp del]

lemma concrete_groups:
  "chain [PushButtonGroup_add avr Moved 10] PushButtonGroup_init = Some one_button"
  "chain [PushButtonGroup_add avr Moved 10, PushButtonGroup_add avr InPlace 20]
     PushButtonGroup_init = Some two_buttons"
  "chain [PushButtonGroup_add avr Moved 10, PushButtonGroup_add avr InPlace 20,
          PushButtonGroup_add avr Moved 10] PushButtonGroup_init = Some twice_the_same"
  by code_simp+

lemma members_length: "members g = map Some ps \<Longrightarrow> length ps = nat (buttonsSize g)"
proof -
  assume "members g = map Some ps"
  then have "length (members g) = length (map Some ps)" by simp
  then show ?thesis by (simp add: members_def)
qed

lemma members_slot:
  assumes "members g = map Some ps" and "0 \<le> i" and "i < buttonsSize g"
  shows "slot g i = Some (ps ! nat i)"
proof -
  have len: "nat i < nat (buttonsSize g)" using assms(2,3) by simp
  then have "members g ! nat i = slot g (int (nat i))" by (simp add: members_def)
  moreover have "map Some ps ! nat i = Some (ps ! nat i)"
    using len members_length [OF assms(1)] by simp
  ultimately show ?thesis using assms(1,2) by simp
qed

lemma poll_members_length: "length (fst (poll_members ps k env h)) = length ps"
  by (induction ps arbitrary: k h) (simp_all add: split_beta)

text \<open>
  The loop from index \<open>i\<close> on does what \<open>poll_members\<close> does on the members from \<open>i\<close> on, and
  its flag ends up true when it was already, or when one of them returned true.
\<close>

lemma updateLoop_polls:
  "members g = map Some ps \<Longrightarrow> 0 \<le> i \<Longrightarrow>
   updateLoop g env i st h
     = Some (st \<or> True \<in> set (fst (poll_members (drop (nat i) ps) (nat i) env h)),
             snd (poll_members (drop (nat i) ps) (nat i) env h))"
proof (induction g env i st h rule: updateLoop.induct)
  case (1 g env i st h)
  show ?case
  proof (cases "i < buttonsSize g")
    case False
    with "1.prems" have "drop (nat i) ps = []" using members_length [of g ps] by simp
    with False show ?thesis by (simp add: updateLoop.simps [of g env i])
  next
    case True
    have sl: "slot g i = Some (ps ! nat i)" using "1.prems" True by (simp add: members_slot)
    have dr: "drop (nat i) ps = ps ! nat i # drop (Suc (nat i)) ps"
      using "1.prems" True members_length [of g ps] by (simp add: Cons_nth_drop_Suc)
    have nx: "nat (i + 1) = Suc (nat i)" using "1.prems" by simp
    obtain r b where
      up: "PushButton_update (fst (env (nat i))) (snd (env (nat i))) (h (ps ! nat i)) = (r, b)"
      by (cases "PushButton_update (fst (env (nat i))) (snd (env (nat i))) (h (ps ! nat i))")
    have nn: "0 \<le> i + 1" using "1.prems"(2) by simp
    note ih = "1.IH" [OF True sl up [symmetric] "1.prems"(1) nn]
    have "updateLoop g env i st h
            = updateLoop g env (i + 1) (if r then True else st) (h(ps ! nat i := b))"
      using True sl up by (simp add: updateLoop.simps [of g env i])
    also note ih
    finally show ?thesis
      by (cases r) (simp_all add: dr nx up split_beta fun_upd_def)
  qed
qed

text \<open>
  C9. On a group whose first \<^verbatim>\<open>buttonsSize\<close> slots hold the references \<open>ps\<close>, the group's
  \<^verbatim>\<open>update()\<close> returns, and does what the specification's \<open>poll_members\<close> does: it calls
  \<^verbatim>\<open>update()\<close> once for each entry of \<open>ps\<close>, in order, whatever the earlier calls returned
  (there are as many returned values as entries), and it returns true exactly when one
  of these calls returned true. On a group of size 0 it returns false and touches no
  button.
\<close>

theorem group_update_polls_every_member:
  "(members g = map Some ps \<longrightarrow>
      PushButtonGroup_update env g h
        = Some (True \<in> set (fst (poll_members ps 0 env h)), snd (poll_members ps 0 env h))
      \<and> length (fst (poll_members ps 0 env h)) = length ps)
   \<and> (buttonsSize g = 0 \<longrightarrow> PushButtonGroup_update env g h = Some (False, h))"
proof (intro conjI impI)
  assume m: "members g = map Some ps"
  from updateLoop_polls [OF m, of 0 env False h]
  show "PushButtonGroup_update env g h
        = Some (True \<in> set (fst (poll_members ps 0 env h)), snd (poll_members ps 0 env h))"
    by (simp add: PushButtonGroup_update_def)
  show "length (fst (poll_members ps 0 env h)) = length ps" by (rule poll_members_length)
next
  assume "buttonsSize g = 0"
  then show "PushButtonGroup_update env g h = Some (False, h)"
    by (simp add: PushButtonGroup_update_def updateLoop.simps [of g env 0])
qed

theorem group_update_polls_every_member_witness:
  "members two_buttons = map Some [10, 20]
   \<and> fst (poll_members [10, 20] 0 two_polls (\<lambda>p. fresh)) = [False, True]
   \<and> map_option fst (PushButtonGroup_update two_polls two_buttons (\<lambda>p. fresh)) = Some True
   \<and> buttonsSize PushButtonGroup_init = 0
   \<and> map_option fst (PushButtonGroup_update two_polls PushButtonGroup_init (\<lambda>p. fresh))
       = Some False"
proof -
  have m: "members two_buttons = map Some [10, 20]" by code_simp
  have e: "buttonsSize PushButtonGroup_init = 0" by (simp add: PushButtonGroup_init_def)
  have rs: "fst (poll_members [10, 20] 0 two_polls (\<lambda>p. fresh)) = [False, True]"
    by code_simp
  note a = group_update_polls_every_member
    [of two_buttons "[10, 20]" two_polls "\<lambda>p. fresh", THEN conjunct1, THEN mp, OF m]
  note b = group_update_polls_every_member
    [of PushButtonGroup_init "[]" two_polls "\<lambda>p. fresh", THEN conjunct2, THEN mp, OF e]
  from a rs have "map_option fst (PushButtonGroup_update two_polls two_buttons (\<lambda>p. fresh))
                    = Some True"
    by simp
  moreover from b
  have "map_option fst (PushButtonGroup_update two_polls PushButtonGroup_init (\<lambda>p. fresh))
          = Some False"
    by simp
  ultimately show ?thesis using m e rs by blast
qed

subsection \<open>Where add and remove leave the group\<close>

lemma add_size:
  "PushButtonGroup_add lay ev button g = Some g' \<Longrightarrow> buttonsSize g' = buttonsSize g + 1"
  by (auto simp add: PushButtonGroup_add_def Let_def
      split: realloc_result.splits option.splits)

lemma remove_size:
  "PushButtonGroup_remove lay ev button g = Some g' \<Longrightarrow> buttonsSize g' = buttonsSize g - 1"
  by (auto simp add: PushButtonGroup_remove_def Let_def
      split: realloc_result.splits option.splits table.splits if_splits)

text \<open>
  C1 on the code. Line 245 increments \<^verbatim>\<open>buttonsSize\<close> before line 246 asks for the larger
  block, and the return of line 248 does not take the increment back. On any live table
  a failed growth leaves the table as it was and the counter one higher (no result is
  given for the request of 0 bytes a counter of -1 leads to). On the group holding the
  one button 10, the failed \<^verbatim>\<open>add(20)\<close> leaves size 2 over a table whose second slot was
  never written, and the group's next \<^verbatim>\<open>update()\<close> reads that slot: it has no defined
  result.
\<close>

theorem failed_add_keeps_the_increment:
  "PushButtonGroup_add lay ReallocFails button \<lparr>buttons = Live blk, buttonsSize = n\<rparr>
     = (if n = - 1 then None else Some \<lparr>buttons = Live blk, buttonsSize = n + 1\<rparr>)
   \<and> PushButtonGroup_add avr ReallocFails 20 one_button
       = Some \<lparr>buttons = Live (Some 10 # replicate 8 None), buttonsSize = 2\<rparr>
   \<and> members \<lparr>buttons = Live (Some 10 # replicate 8 None), buttonsSize = 2\<rparr>
       = [Some 10, None]
   \<and> PushButtonGroup_update env
         \<lparr>buttons = Live (Some 10 # replicate 8 None), buttonsSize = 2\<rparr> h = None"
proof (intro conjI)
  show "PushButtonGroup_add lay ReallocFails button \<lparr>buttons = Live blk, buttonsSize = n\<rparr>
     = (if n = - 1 then None else Some \<lparr>buttons = Live blk, buttonsSize = n + 1\<rparr>)"
    by (simp add: PushButtonGroup_add_def realloc_def Let_def)
  show "PushButtonGroup_add avr ReallocFails 20 one_button
       = Some \<lparr>buttons = Live (Some 10 # replicate 8 None), buttonsSize = 2\<rparr>"
    by code_simp
  show "members \<lparr>buttons = Live (Some 10 # replicate 8 None), buttonsSize = 2\<rparr>
       = [Some 10, None]"
    by code_simp
  show "PushButtonGroup_update env
         \<lparr>buttons = Live (Some 10 # replicate 8 None), buttonsSize = 2\<rparr> h = None"
    by (simp add: PushButtonGroup_update_def updateLoop.simps [of _ _ 0]
        updateLoop.simps [of _ _ 1] slot_def load_def split_beta)
qed

text \<open>
  C2 on the code. The loop of lines 270 to 274 skips every entry equal to the argument,
  while line 256 has taken one off the size. On the group holding 10, 20, 10, with the
  block shrunk in place, \<^verbatim>\<open>remove(10)\<close> leaves size 2 and the members 20, 20: no entry
  for button 10 is left, and the slot after the one copied entry still holds the 20 it
  held before.
\<close>

theorem remove_skips_every_duplicate:
  "map_option (\<lambda>g. (buttonsSize g, members g))
     (PushButtonGroup_remove avr InPlace 10 twice_the_same)
     = Some (2, [Some 20, Some 20])"
  by code_simp

text \<open>
  C3 on the code. Line 256 takes one off the size whether the argument is in the table
  or not. With the block shrunk in place, removing the absent button 30 from the group
  holding 10, 20 leaves size 1 and the member 10 alone; removing it from the group
  holding only 10 leaves size 0 and the block released.
\<close>

theorem remove_absent_drops_the_last:
  "map_option (\<lambda>g. (buttonsSize g, members g))
     (PushButtonGroup_remove avr InPlace 30 two_buttons)
     = Some (1, [Some 10])
   \<and> PushButtonGroup_remove avr InPlace 30 one_button
       = Some \<lparr>buttons = Freed, buttonsSize = 0\<rparr>"
  by code_simp

end
